theory Spec2Isabelle
  imports Complex_Main "HOL-Library.List_Lexorder" "HOL-Library.Product_Lexorder"
    "HOL-Library.Option_ord"
begin

section \<open>Text and table cells\<close>

text \<open>
  A Python \<open>str\<close> is a sequence of Unicode code points; it is modelled as a list of
  natural numbers. \<open>str\<close> turns an ASCII literal into such a list; the accented letters
  of the program's labels are given by their code points (\<open>237\<close> i-acute, \<open>250\<close> u-acute,
  \<open>193\<close> capital A-acute).
\<close>

type_synonym pystr = "nat list"

definition str :: "string \<Rightarrow> pystr" where
  "str s = map of_char s"

text \<open>
  The code points for which Python's \<open>str.isspace\<close> holds; \<open>str.strip()\<close> without an
  argument removes exactly these from both ends.
\<close>

definition isspace :: "nat \<Rightarrow> bool" where
  "isspace c \<longleftrightarrow>
     (9 \<le> c \<and> c \<le> 13) \<or> (28 \<le> c \<and> c \<le> 32) \<or> c = 133 \<or> c = 160 \<or> c = 5760 \<or>
     (8192 \<le> c \<and> c \<le> 8202) \<or> c = 8232 \<or> c = 8233 \<or> c = 8239 \<or> c = 8287 \<or>
     c = 12288"

definition strip :: "pystr \<Rightarrow> pystr" where
  "strip s = rev (dropWhile isspace (rev (dropWhile isspace s)))"

text \<open>Decimal digits of a natural number, most significant first, as Python prints them.\<close>

fun digits :: "nat \<Rightarrow> pystr" where
  "digits n = (if n < 10 then [48 + n] else digits (n div 10) @ [48 + n mod 10])"

declare digits.simps [simp del]

text \<open>
  A cell of the uploaded sheet as \<open>pandas.read_excel\<close> delivers it: an integer, a text,
  or a missing value (NaN). \<open>astype_str\<close> is the element-wise \<open>astype(str)\<close>: Python's
  \<open>str\<close> of the value, which renders a missing cell as the text \<open>nan\<close>. Cells that
  hold floating-point numbers are not part of the model.
\<close>

datatype cell = CInt int | CStr pystr | CNaN

fun astype_str :: "cell \<Rightarrow> pystr" where
  "astype_str (CInt i) = (if i < 0 then 45 # digits (nat (- i)) else digits (nat i))"
| "astype_str (CStr s) = s"
| "astype_str CNaN = str ''nan''"

definition isnull :: "cell \<Rightarrow> bool" where
  "isnull c \<longleftrightarrow> c = CNaN"

section \<open>Loader: recoding of the categorical columns (\<open>cargar_datos\<close>)\<close>

text \<open>
  \<open>Series.replace(d)\<close> with a dictionary \<open>d\<close> of texts: an element equal to a key is
  replaced by the key's value, every other element is kept. The dictionaries are
  association lists in the order of the source.
\<close>

definition replace :: "(pystr \<times> pystr) list \<Rightarrow> pystr \<Rightarrow> pystr" where
  "replace d x = (case map_of d x of None \<Rightarrow> x | Some y \<Rightarrow> y)"

definition dict_values :: "(pystr \<times> pystr) list \<Rightarrow> pystr list" where
  "dict_values d = map snd d"

definition reemplazos_servicio :: "(pystr \<times> pystr) list" where
  "reemplazos_servicio =
    [(str ''1'', str ''Residencial''), (str ''2'', str ''Comercial''),
     (str ''3'', str ''Industrial''), (str ''4'', str ''Oficial''),
     (str ''5'', str ''Alumbrado P'' @ [250] @ str ''blico''),
     (str ''6'', str ''Especial''), (str ''7'', str ''Provisional''),
     (str ''10'', [193] @ str ''rea Com'' @ [250] @ str ''n''),
     (str ''11'', str ''Autoconsumo'')]"

definition reemplazos_edad :: "(pystr \<times> pystr) list" where
  "reemplazos_edad =
    [(str ''0'', str ''Corriente''),
     (str ''1'', str ''1 a 30 D'' @ [237] @ str ''as''),
     (str ''2'', str ''31 a 60 D'' @ [237] @ str ''as''),
     (str ''3'', str ''61 a 90 D'' @ [237] @ str ''as''),
     (str ''4'', str ''91 a 120 D'' @ [237] @ str ''as''),
     (str ''5'', str ''121 a 150 D'' @ [237] @ str ''as''),
     (str ''6'', str ''151 a 180 D'' @ [237] @ str ''as'')]"

definition mayor_180 :: pystr where
  "mayor_180 = str ''> a 180 D'' @ [237] @ str ''as''"

definition reemplazos_codigo :: "(pystr \<times> pystr) list" where
  "reemplazos_codigo =
    [(str ''601'', str ''Energ'' @ [237] @ str ''a''), (str ''603'', str ''Somos''),
     (str ''609'', str ''Terceros'')]"

text \<open>
  The three column recodings of \<open>cargar_datos\<close>, on one cell:
  \<open>astype(str).str.strip().replace(...)\<close>, and for \<open>EDAD\<close> the following
  \<open>apply(lambda x: '> a 180 Dias' if x not in reemplazos_edad.values() else x)\<close>.
\<close>

definition recodificar_clase_servicio :: "cell \<Rightarrow> pystr" where
  "recodificar_clase_servicio v = replace reemplazos_servicio (strip (astype_str v))"

definition recodificar_edad :: "cell \<Rightarrow> pystr" where
  "recodificar_edad v =
     (let x = replace reemplazos_edad (strip (astype_str v))
      in if x \<notin> set (dict_values reemplazos_edad) then mayor_180 else x)"

definition recodificar_codigo :: "cell \<Rightarrow> pystr" where
  "recodificar_codigo v = replace reemplazos_codigo (strip (astype_str v))"

text \<open>
  A row of the table. After \<open>cargar_datos\<close> the three recoded columns hold texts; the
  other columns keep the cells of the sheet. The balance is an exact decimal amount, or
  missing.
\<close>

record fila =
  NIU :: cell
  NOMBRE :: cell
  DIRECCION :: cell
  DESCRIPCION_MUNICIPIO :: cell
  CICLO :: cell
  CLASE_SERVICIO :: cell
  EDAD :: cell
  CODIGO_DEL_SERVICIO :: cell
  SALDO_CARTERA :: "rat option"

definition cargar_datos :: "fila list \<Rightarrow> fila list" where
  "cargar_datos df =
     map (\<lambda>r. r\<lparr>CLASE_SERVICIO := CStr (recodificar_clase_servicio (CLASE_SERVICIO r)),
                 EDAD := CStr (recodificar_edad (EDAD r)),
                 CODIGO_DEL_SERVICIO := CStr (recodificar_codigo (CODIGO_DEL_SERVICIO r))\<rparr>) df"

section \<open>Currency format (\<open>formato_pesos\<close>)\<close>

text \<open>
  The format specification \<open>,.0f\<close> rounds to zero decimals, ties to the even integer,
  writes a minus sign for a negative amount and groups the digits in threes with commas;
  \<open>formato_pesos\<close> puts \<open>$\<close> in front and replaces every comma by a period.
  Code points: \<open>36\<close> dollar, \<open>44\<close> comma, \<open>45\<close> minus, \<open>46\<close> period.
\<close>

definition round_half_even :: "rat \<Rightarrow> int" where
  "round_half_even x =
     (let f = \<lfloor>x\<rfloor>; d = x - of_int f
      in if d < 1 / 2 then f else if 1 / 2 < d then f + 1 else if even f then f else f + 1)"

fun agrupar_miles :: "pystr \<Rightarrow> pystr" where
  "agrupar_miles ds =
     (if length ds \<le> 3 then ds
      else agrupar_miles (take (length ds - 3) ds) @ [44] @ drop (length ds - 3) ds)"

declare agrupar_miles.simps [simp del]

definition format_coma_0f :: "rat \<Rightarrow> pystr" where
  "format_coma_0f valor =
     (if valor < 0 then [45] else []) @ agrupar_miles (digits (nat \<bar>round_half_even valor\<bar>))"

definition str_replace :: "nat \<Rightarrow> nat \<Rightarrow> pystr \<Rightarrow> pystr" where
  "str_replace old new s = map (\<lambda>c. if c = old then new else c) s"

definition formato_pesos :: "rat \<Rightarrow> pystr" where
  "formato_pesos valor = str_replace 44 46 ([36] @ format_coma_0f valor)"

section \<open>Filters of the main tab (\<open>df_filtrado\<close>)\<close>

definition isin :: "cell \<Rightarrow> cell list \<Rightarrow> bool" where
  "isin x sel \<longleftrightarrow> x \<in> set sel"

text \<open>
  The selections of the five multiselects are lists, the optional NIU is a text (empty
  when nothing is chosen). A Python list or text is true exactly when it is not empty.
\<close>

definition df_filtrado ::
    "cell list \<Rightarrow> cell list \<Rightarrow> cell list \<Rightarrow> cell list \<Rightarrow> cell list \<Rightarrow> pystr \<Rightarrow>
     fila list \<Rightarrow> fila list" where
  "df_filtrado municipio ciclo clase_servicio edad servicio niu df =
     (let d1 = (if municipio \<noteq> [] then filter (\<lambda>r. isin (DESCRIPCION_MUNICIPIO r) municipio) df
                else df);
          d2 = (if ciclo \<noteq> [] then filter (\<lambda>r. isin (CICLO r) ciclo) d1 else d1);
          d3 = (if clase_servicio \<noteq> [] then filter (\<lambda>r. isin (CLASE_SERVICIO r) clase_servicio) d2
                else d2);
          d4 = (if edad \<noteq> [] then filter (\<lambda>r. isin (EDAD r) edad) d3 else d3);
          d5 = (if servicio \<noteq> [] then filter (\<lambda>r. isin (CODIGO_DEL_SERVICIO r) servicio) d4
                else d4);
          d6 = (if niu \<noteq> [] then filter (\<lambda>r. astype_str (NIU r) = niu) d5 else d5)
      in d6)"

section \<open>Aggregation by customer (\<open>agrupado\<close>)\<close>

text \<open>
  \<open>groupby(['NIU'])\<close> forms one group for each distinct key that is not missing (rows with
  a missing key belong to no group) and orders the groups by ascending key: integers by
  value, texts by code points, integers before texts. \<open>cell_key\<close> maps a cell to its
  place in that order.
\<close>

fun cell_key :: "cell \<Rightarrow> nat \<times> int \<times> pystr" where
  "cell_key (CInt i) = (0, i, [])"
| "cell_key (CStr s) = (1, 0, s)"
| "cell_key CNaN = (2, 0, [])"

definition claves :: "fila list \<Rightarrow> cell list" where
  "claves df = sort_key cell_key (remdups (filter (\<lambda>k. \<not> isnull k) (map NIU df)))"

text \<open>
  The aggregations: \<open>'sum'\<close> adds the balances that are present (an empty sum is 0);
  \<open>'first'\<close> is the first value of the column in the group that is not missing, and
  missing when there is none.
\<close>

definition agg_sum :: "rat option list \<Rightarrow> rat" where
  "agg_sum xs = sum_list (map (\<lambda>x. case x of None \<Rightarrow> 0 | Some v \<Rightarrow> v) xs)"

definition agg_first :: "cell list \<Rightarrow> cell" where
  "agg_first xs = (case filter (\<lambda>c. \<not> isnull c) xs of [] \<Rightarrow> CNaN | c # _ \<Rightarrow> c)"

record fila_agrupada =
  NIU_g :: cell
  SALDO_CARTERA_g :: rat
  NOMBRE_g :: cell
  DIRECCION_g :: cell
  DESCRIPCION_MUNICIPIO_g :: cell
  CICLO_g :: cell
  EDAD_g :: cell
  CODIGO_DEL_SERVICIO_g :: cell

definition grupo :: "fila list \<Rightarrow> cell \<Rightarrow> fila list" where
  "grupo df k = filter (\<lambda>r. NIU r = k) df"

definition agrupado :: "fila list \<Rightarrow> fila_agrupada list" where
  "agrupado df =
     map (\<lambda>k. let g = grupo df k in
            \<lparr>NIU_g = k,
             SALDO_CARTERA_g = agg_sum (map SALDO_CARTERA g),
             NOMBRE_g = agg_first (map NOMBRE g),
             DIRECCION_g = agg_first (map DIRECCION g),
             DESCRIPCION_MUNICIPIO_g = agg_first (map DESCRIPCION_MUNICIPIO g),
             CICLO_g = agg_first (map CICLO g),
             EDAD_g = agg_first (map EDAD g),
             CODIGO_DEL_SERVICIO_g = agg_first (map CODIGO_DEL_SERVICIO g)\<rparr>)
         (claves df)"

section \<open>Reports tab: the KPIs and the ten largest balances\<close>








text \<open>
  \<open>nlargest(n, 'SALDO_CARTERA')\<close> with the default \<open>keep='first'\<close>: the positions of the
  rows in descending order of balance, rows of equal balance in their original order,
  missing balances last; the first \<open>n\<close> of them are taken. The order of
  \<open>HOL-Library.Option_ord\<close> puts \<open>None\<close> below every amount. Sorting the reversed
  positions with the stable \<open>sort_key\<close> and reversing the result gives the descending
  order that keeps ties in their original order. \<open>top10\<close> then keeps three columns.
\<close>

definition nlargest_indexer :: "nat \<Rightarrow> rat option list \<Rightarrow> nat list" where
  "nlargest_indexer n vals = take n (rev (sort_key (\<lambda>i. vals ! i) (rev [0..<length vals])))"

definition nlargest :: "nat \<Rightarrow> fila list \<Rightarrow> fila list" where
  "nlargest n dfs = map (\<lambda>i. dfs ! i) (nlargest_indexer n (map SALDO_CARTERA dfs))"

definition top10 :: "fila list \<Rightarrow> (cell \<times> cell \<times> rat option) list" where
  "top10 dfs = map (\<lambda>r. (NIU r, NOMBRE r, SALDO_CARTERA r)) (nlargest 10 dfs)"


section \<open>Example rows\<close>

text \<open>A row of a normalised table with the given customer, name, municipality,
  service code and balance; used to build the concrete tables of the examples.\<close>

definition ejemplo :: "cell \<Rightarrow> cell \<Rightarrow> cell \<Rightarrow> cell \<Rightarrow> rat option \<Rightarrow> fila" where
  "ejemplo niu nombre municipio codigo saldo =
     \<lparr>NIU = niu, NOMBRE = nombre, DIRECCION = CNaN, DESCRIPCION_MUNICIPIO = municipio,
      CICLO = CInt 1, CLASE_SERVICIO = CStr (str ''Residencial''),
      EDAD = CStr (str ''Corriente''), CODIGO_DEL_SERVICIO = codigo, SALDO_CARTERA = saldo\<rparr>"

section \<open>Properties of the recodings\<close>

lemmas tablas =
  reemplazos_servicio_def reemplazos_edad_def reemplazos_codigo_def mayor_180_def str_def

lemma replace_key: "distinct (map fst d) \<Longrightarrow> (k, l) \<in> set d \<Longrightarrow> replace d k = l"
  by (simp add: replace_def)

lemma replace_other: "x \<notin> set (map fst d) \<Longrightarrow> replace d x = x"
  by (simp add: replace_def map_of_eq_None_iff[THEN iffD2])

lemma edad_keys_distinct: "distinct (map fst reemplazos_edad)"
  by (simp add: tablas)

lemma edad_labels_not_keys:
  "set (dict_values reemplazos_edad) \<inter> set (map fst reemplazos_edad) = {}"
  by (simp add: tablas dict_values_def)

lemma servicio_keys_distinct: "distinct (map fst reemplazos_servicio)"
  by (simp add: tablas)

lemma codigo_keys_distinct: "distinct (map fst reemplazos_codigo)"
  by (simp add: tablas)

text \<open>
  C1 (as amended). Write \<open>x\<close> for the string-cast, trimmed value of a raw \<open>EDAD\<close> cell.
  If \<open>x\<close> is one of the codes \<open>0\<close> to \<open>6\<close> the recoding returns the label of that code; if
  \<open>x\<close> already is one of the seven labels it is returned as it is; for every other \<open>x\<close>
  the overflow label is returned. So the result is always one of the seven labels or the
  overflow label, and the recoded column of \<open>cargar_datos\<close> holds nothing else.
\<close>

theorem recodificar_edad_cases:
  "((k, l) \<in> set reemplazos_edad \<and> strip (astype_str v) = k \<longrightarrow> recodificar_edad v = l) \<and>
   (strip (astype_str v) \<in> set (dict_values reemplazos_edad) \<longrightarrow>
      recodificar_edad v = strip (astype_str v)) \<and>
   (strip (astype_str v) \<notin> set (map fst reemplazos_edad) \<and>
    strip (astype_str v) \<notin> set (dict_values reemplazos_edad) \<longrightarrow>
      recodificar_edad v = mayor_180) \<and>
   recodificar_edad v \<in> set (dict_values reemplazos_edad) \<union> {mayor_180} \<and>
   (\<forall>r \<in> set (cargar_datos df).
      \<exists>x \<in> set (dict_values reemplazos_edad) \<union> {mayor_180}. EDAD r = CStr x) \<and>
   map fst reemplazos_edad =
     [str ''0'', str ''1'', str ''2'', str ''3'', str ''4'', str ''5'', str ''6''] \<and>
   length (dict_values reemplazos_edad) = 7"
proof (intro conjI impI)
  assume a: "(k, l) \<in> set reemplazos_edad \<and> strip (astype_str v) = k"
  then have "replace reemplazos_edad (strip (astype_str v)) = l"
    using replace_key[OF edad_keys_distinct] by blast
  moreover have "l \<in> set (dict_values reemplazos_edad)"
    using a by (force simp: dict_values_def)
  ultimately show "recodificar_edad v = l"
    by (simp add: recodificar_edad_def)
next
  assume a: "strip (astype_str v) \<in> set (dict_values reemplazos_edad)"
  then have "strip (astype_str v) \<notin> set (map fst reemplazos_edad)"
    using edad_labels_not_keys by blast
  then have "replace reemplazos_edad (strip (astype_str v)) = strip (astype_str v)"
    by (rule replace_other)
  then show "recodificar_edad v = strip (astype_str v)"
    using a by (simp add: recodificar_edad_def)
next
  assume a: "strip (astype_str v) \<notin> set (map fst reemplazos_edad) \<and>
    strip (astype_str v) \<notin> set (dict_values reemplazos_edad)"
  then have "replace reemplazos_edad (strip (astype_str v)) = strip (astype_str v)"
    by (simp add: replace_other)
  then show "recodificar_edad v = mayor_180"
    using a by (simp add: recodificar_edad_def)
next
  show "recodificar_edad v \<in> set (dict_values reemplazos_edad) \<union> {mayor_180}"
    by (simp add: recodificar_edad_def Let_def)
next
  show "\<forall>r \<in> set (cargar_datos df).
      \<exists>x \<in> set (dict_values reemplazos_edad) \<union> {mayor_180}. EDAD r = CStr x"
    by (auto simp: cargar_datos_def recodificar_edad_def Let_def)
next
  show "map fst reemplazos_edad =
     [str ''0'', str ''1'', str ''2'', str ''3'', str ''4'', str ''5'', str ''6'']"
    by (simp add: reemplazos_edad_def)
next
  show "length (dict_values reemplazos_edad) = 7"
    by (simp add: reemplazos_edad_def dict_values_def)
qed

text \<open>
  The integer cell 3 becomes the label of code 3, a cell that already holds the label
  \<open>Corriente\<close> keeps it, and the text \<open>9\<close> with blanks around it, the empty text and a
  missing cell all become the overflow label.
\<close>

theorem recodificar_edad_cases_witness:
  "recodificar_edad (CInt 3) = str ''61 a 90 D'' @ [237] @ str ''as'' \<and>
   recodificar_edad (CStr (str ''Corriente'')) = str ''Corriente'' \<and>
   recodificar_edad (CStr (str '' 9 '')) = mayor_180 \<and>
   recodificar_edad (CStr []) = mayor_180 \<and>
   recodificar_edad CNaN = mayor_180"
  using
    recodificar_edad_cases[of "str ''3''" "str ''61 a 90 D'' @ [237] @ str ''as''" "CInt 3" "[]"]
    recodificar_edad_cases[of "[]" "[]" "CStr (str ''Corriente'')" "[]"]
    recodificar_edad_cases[of "[]" "[]" "CStr (str '' 9 '')" "[]"]
    recodificar_edad_cases[of "[]" "[]" "CStr []" "[]"]
    recodificar_edad_cases[of "[]" "[]" "CNaN" "[]"]
  by (simp add: tablas dict_values_def strip_def isspace_def digits.simps)

text \<open>
  C1 as stated fails: the trimmed value \<open>Corriente\<close> is none of the codes \<open>0\<close> to \<open>6\<close>, yet
  the recoding does not return the overflow label for it.
\<close>

theorem recodificar_edad_label_counterexample:
  "strip (astype_str (CStr (str ''Corriente''))) \<notin> set (map fst reemplazos_edad) \<and>
   recodificar_edad (CStr (str ''Corriente'')) \<noteq> mayor_180"
  by (simp add: recodificar_edad_def replace_def tablas dict_values_def strip_def isspace_def)

text \<open>
  C4 (as amended). If the string-cast, trimmed value of a raw \<open>CLASE_SERVICIO\<close> cell is
  one of the nine codes 1, 2, 3, 4, 5, 6, 7, 10, 11, the recoding returns the label of
  that code; for every other cell it returns the string-cast, trimmed value unchanged,
  which is the cell's own text when that text has no blank at either end.
\<close>

theorem recodificar_clase_servicio_cases:
  "((k, l) \<in> set reemplazos_servicio \<and> strip (astype_str v) = k \<longrightarrow>
      recodificar_clase_servicio v = l) \<and>
   (strip (astype_str v) \<notin> set (map fst reemplazos_servicio) \<longrightarrow>
      recodificar_clase_servicio v = strip (astype_str v)) \<and>
   (strip (astype_str v) \<notin> set (map fst reemplazos_servicio) \<and>
    strip (astype_str v) = astype_str v \<longrightarrow>
      recodificar_clase_servicio v = astype_str v) \<and>
   map fst reemplazos_servicio =
     [str ''1'', str ''2'', str ''3'', str ''4'', str ''5'', str ''6'', str ''7'', str ''10'',
      str ''11'']"
proof (intro conjI impI)
  assume "(k, l) \<in> set reemplazos_servicio \<and> strip (astype_str v) = k"
  then show "recodificar_clase_servicio v = l"
    using replace_key[OF servicio_keys_distinct]
    by (auto simp: recodificar_clase_servicio_def)
next
  assume "strip (astype_str v) \<notin> set (map fst reemplazos_servicio)"
  then show "recodificar_clase_servicio v = strip (astype_str v)"
    by (simp add: recodificar_clase_servicio_def replace_other)
next
  assume "strip (astype_str v) \<notin> set (map fst reemplazos_servicio) \<and>
    strip (astype_str v) = astype_str v"
  then show "recodificar_clase_servicio v = astype_str v"
    unfolding recodificar_clase_servicio_def by (metis replace_other)
next
  show "map fst reemplazos_servicio =
     [str ''1'', str ''2'', str ''3'', str ''4'', str ''5'', str ''6'', str ''7'', str ''10'',
      str ''11'']"
    by (simp add: reemplazos_servicio_def)
qed

theorem recodificar_clase_servicio_cases_witness:
  "recodificar_clase_servicio (CInt 10) = [193] @ str ''rea Com'' @ [250] @ str ''n'' \<and>
   recodificar_clase_servicio (CStr (str '' 5 '')) = str ''Alumbrado P'' @ [250] @ str ''blico'' \<and>
   recodificar_clase_servicio (CStr (str '' 8'')) = str ''8'' \<and>
   recodificar_clase_servicio (CInt 8) = str ''8'' \<and>
   recodificar_clase_servicio (CStr (str ''Rural'')) = str ''Rural''"
  using
    recodificar_clase_servicio_cases[of "str ''10''" "[193] @ str ''rea Com'' @ [250] @ str ''n''"
      "CInt 10"]
    recodificar_clase_servicio_cases[of "str ''5''" "str ''Alumbrado P'' @ [250] @ str ''blico''"
      "CStr (str '' 5 '')"]
    recodificar_clase_servicio_cases[of "[]" "[]" "CStr (str '' 8'')"]
    recodificar_clase_servicio_cases[of "[]" "[]" "CInt 8"]
    recodificar_clase_servicio_cases[of "[]" "[]" "CStr (str ''Rural'')"]
  by (simp add: tablas strip_def isspace_def digits.simps)

text \<open>
  C4 as stated fails: the text \<open>8\<close> with a blank in front is none of the nine codes after
  trimming, and the recoding returns \<open>8\<close>, not the original text.
\<close>

theorem recodificar_clase_servicio_counterexample:
  "strip (astype_str (CStr (str '' 8''))) \<notin> set (map fst reemplazos_servicio) \<and>
   recodificar_clase_servicio (CStr (str '' 8'')) \<noteq> astype_str (CStr (str '' 8'')) \<and>
   CStr (recodificar_clase_servicio (CStr (str '' 8''))) \<noteq> CStr (str '' 8'')"
  by (simp add: recodificar_clase_servicio_def replace_def tablas strip_def isspace_def)

text \<open>
  C5 (as amended). If the string-cast, trimmed value of a raw \<open>CODIGO_DEL_SERVICIO\<close>
  cell is none of \<open>601\<close>, \<open>603\<close>, \<open>609\<close>, the recoding returns that string-cast, trimmed
  value unchanged (the cell's own text when it has no blank at either end); the three
  listed codes map to their labels.
\<close>

theorem recodificar_codigo_cases:
  "(strip (astype_str v) \<notin> {str ''601'', str ''603'', str ''609''} \<longrightarrow>
      recodificar_codigo v = strip (astype_str v)) \<and>
   (strip (astype_str v) \<notin> {str ''601'', str ''603'', str ''609''} \<and>
    strip (astype_str v) = astype_str v \<longrightarrow>
      recodificar_codigo v = astype_str v) \<and>
   (strip (astype_str v) = str ''601'' \<longrightarrow>
      recodificar_codigo v = str ''Energ'' @ [237] @ str ''a'') \<and>
   (strip (astype_str v) = str ''603'' \<longrightarrow> recodificar_codigo v = str ''Somos'') \<and>
   (strip (astype_str v) = str ''609'' \<longrightarrow> recodificar_codigo v = str ''Terceros'')"
proof -
  have keys: "set (map fst reemplazos_codigo) = {str ''601'', str ''603'', str ''609''}"
    by (simp add: reemplazos_codigo_def)
  have other: "strip (astype_str v) \<notin> {str ''601'', str ''603'', str ''609''} \<Longrightarrow>
      recodificar_codigo v = strip (astype_str v)"
    using replace_other[of "strip (astype_str v)" reemplazos_codigo, unfolded keys]
    by (simp add: recodificar_codigo_def)
  have key: "\<And>k l. (k, l) \<in> set reemplazos_codigo \<Longrightarrow> strip (astype_str v) = k \<Longrightarrow>
      recodificar_codigo v = l"
    using replace_key[OF codigo_keys_distinct] by (simp add: recodificar_codigo_def)
  have k1: "(str ''601'', str ''Energ'' @ [237] @ str ''a'') \<in> set reemplazos_codigo"
    and k2: "(str ''603'', str ''Somos'') \<in> set reemplazos_codigo"
    and k3: "(str ''609'', str ''Terceros'') \<in> set reemplazos_codigo"
    by (simp_all add: reemplazos_codigo_def)
  show ?thesis
    using other key[OF k1] key[OF k2] key[OF k3] by metis
qed

theorem recodificar_codigo_cases_witness:
  "recodificar_codigo (CInt 601) = str ''Energ'' @ [237] @ str ''a'' \<and>
   recodificar_codigo (CStr (str ''603 '')) = str ''Somos'' \<and>
   recodificar_codigo (CInt 609) = str ''Terceros'' \<and>
   recodificar_codigo (CInt 700) = str ''700'' \<and>
   recodificar_codigo (CStr (str '' 700 '')) = str ''700''"
  using
    recodificar_codigo_cases[of "CInt 601"]
    recodificar_codigo_cases[of "CStr (str ''603 '')"]
    recodificar_codigo_cases[of "CInt 609"]
    recodificar_codigo_cases[of "CInt 700"]
    recodificar_codigo_cases[of "CStr (str '' 700 '')"]
  by (simp add: str_def strip_def isspace_def digits.simps)

text \<open>
  C5 as stated fails: the text \<open>700\<close> between blanks is none of the three codes after
  trimming, and the recoding returns \<open>700\<close> without the blanks, not the original text.
\<close>

theorem recodificar_codigo_counterexample:
  "strip (astype_str (CStr (str '' 700 ''))) \<notin> {str ''601'', str ''603'', str ''609''} \<and>
   recodificar_codigo (CStr (str '' 700 '')) \<noteq> astype_str (CStr (str '' 700 '')) \<and>
   CStr (recodificar_codigo (CStr (str '' 700 ''))) \<noteq> CStr (str '' 700 '')"
  by (simp add: recodificar_codigo_def replace_def tablas strip_def isspace_def)

section \<open>Properties of the filters\<close>

lemma if_filter: "(if c then filter P xs else xs) = filter (\<lambda>r. c \<longrightarrow> P r) xs"
  by simp

text \<open>
  C2. For every table and every choice of the five selection lists and of the optional
  NIU text, \<open>df_filtrado\<close> returns, in their original order, exactly the rows that for
  each non-empty selection hold a member of it and, when an NIU is chosen, whose NIU
  cast to text equals it. An empty selection constrains nothing: with every selection
  empty the result is the whole table.
\<close>

theorem df_filtrado_members:
  "df_filtrado municipio ciclo clase_servicio edad servicio niu df =
     filter (\<lambda>r. (municipio \<noteq> [] \<longrightarrow> DESCRIPCION_MUNICIPIO r \<in> set municipio) \<and>
                 (ciclo \<noteq> [] \<longrightarrow> CICLO r \<in> set ciclo) \<and>
                 (clase_servicio \<noteq> [] \<longrightarrow> CLASE_SERVICIO r \<in> set clase_servicio) \<and>
                 (edad \<noteq> [] \<longrightarrow> EDAD r \<in> set edad) \<and>
                 (servicio \<noteq> [] \<longrightarrow> CODIGO_DEL_SERVICIO r \<in> set servicio) \<and>
                 (niu \<noteq> [] \<longrightarrow> astype_str (NIU r) = niu)) df \<and>
   df_filtrado [] [] [] [] [] [] df = df"
proof
  show "df_filtrado municipio ciclo clase_servicio edad servicio niu df =
     filter (\<lambda>r. (municipio \<noteq> [] \<longrightarrow> DESCRIPCION_MUNICIPIO r \<in> set municipio) \<and>
                 (ciclo \<noteq> [] \<longrightarrow> CICLO r \<in> set ciclo) \<and>
                 (clase_servicio \<noteq> [] \<longrightarrow> CLASE_SERVICIO r \<in> set clase_servicio) \<and>
                 (edad \<noteq> [] \<longrightarrow> EDAD r \<in> set edad) \<and>
                 (servicio \<noteq> [] \<longrightarrow> CODIGO_DEL_SERVICIO r \<in> set servicio) \<and>
                 (niu \<noteq> [] \<longrightarrow> astype_str (NIU r) = niu)) df"
    unfolding df_filtrado_def Let_def if_filter isin_def filter_filter
    by (rule filter_cong) auto
  show "df_filtrado [] [] [] [] [] [] df = df"
    by (simp add: df_filtrado_def)
qed

text \<open>
  Two municipalities and the NIU \<open>7\<close> selected: the rows of other municipalities and of
  other customers are dropped; the integer 7 and the text \<open>7\<close> both match.
\<close>

theorem df_filtrado_members_witness:
  "df_filtrado [CStr (str ''Armenia''), CStr (str ''Calarca'')] [] [] [] [] (str ''7'')
     [ejemplo (CInt 7) CNaN (CStr (str ''Armenia'')) CNaN (Some 1),
      ejemplo (CInt 7) CNaN (CStr (str ''Salento'')) CNaN (Some 2),
      ejemplo (CInt 8) CNaN (CStr (str ''Calarca'')) CNaN (Some 3),
      ejemplo (CStr (str ''7'')) CNaN (CStr (str ''Calarca'')) CNaN (Some 4)] =
     [ejemplo (CInt 7) CNaN (CStr (str ''Armenia'')) CNaN (Some 1),
      ejemplo (CStr (str ''7'')) CNaN (CStr (str ''Calarca'')) CNaN (Some 4)]"
  using df_filtrado_members[of "[CStr (str ''Armenia''), CStr (str ''Calarca'')]" "[]" "[]" "[]" "[]"
     "str ''7''"
     "[ejemplo (CInt 7) CNaN (CStr (str ''Armenia'')) CNaN (Some 1),
      ejemplo (CInt 7) CNaN (CStr (str ''Salento'')) CNaN (Some 2),
      ejemplo (CInt 8) CNaN (CStr (str ''Calarca'')) CNaN (Some 3),
      ejemplo (CStr (str ''7'')) CNaN (CStr (str ''Calarca'')) CNaN (Some 4)]"]
  by (simp add: ejemplo_def str_def digits.simps)

section \<open>Properties of the aggregation by customer\<close>



lemma set_claves: "set (claves df) = {k \<in> NIU ` set df. \<not> isnull k}"
  by (auto simp: claves_def)

lemma distinct_claves: "distinct (claves df)"
  by (simp add: claves_def)

lemma NIU_agrupado: "map NIU_g (agrupado df) = claves df"
  by (simp add: agrupado_def Let_def comp_def)






lemma inj_cell_key: "cell_key a = cell_key b \<Longrightarrow> a = b"
  by (cases a; cases b) auto

text \<open>
  C10. The aggregated table has exactly one row for each distinct NIU of the filtered
  view (a missing NIU is no customer and forms no group): its keys are pairwise
  different, they are exactly the NIU values of the view, and the rows stand in strictly
  ascending key order, whatever the order of the view.
\<close>

theorem agrupado_claves:
  "distinct (map NIU_g (agrupado df)) \<and>
   set (map NIU_g (agrupado df)) = {k \<in> NIU ` set df. \<not> isnull k} \<and>
   sorted_wrt (\<lambda>a b. cell_key (NIU_g a) < cell_key (NIU_g b)) (agrupado df) \<and>
   length (agrupado df) = card {k \<in> NIU ` set df. \<not> isnull k} \<and>
   (\<forall>a \<in> set (agrupado df). \<forall>b \<in> set (agrupado df). NIU_g a = NIU_g b \<longrightarrow> a = b)"
proof (intro conjI)
  show d: "distinct (map NIU_g (agrupado df))"
    by (simp add: NIU_agrupado distinct_claves)
  show s: "set (map NIU_g (agrupado df)) = {k \<in> NIU ` set df. \<not> isnull k}"
    by (simp only: NIU_agrupado set_claves)
  have "sorted (map cell_key (claves df))"
    unfolding claves_def by (rule sorted_sort_key)
  moreover have "distinct (map cell_key (claves df))"
    by (simp add: distinct_map distinct_claves inj_on_def inj_cell_key)
  ultimately have "sorted_wrt (<) (map cell_key (map NIU_g (agrupado df)))"
    by (simp add: strict_sorted_iff NIU_agrupado)
  then show "sorted_wrt (\<lambda>a b. cell_key (NIU_g a) < cell_key (NIU_g b)) (agrupado df)"
    by (simp add: sorted_wrt_map)
  have "length (agrupado df) = length (map NIU_g (agrupado df))" by simp
  also have "\<dots> = card (set (map NIU_g (agrupado df)))"
    using d by (simp only: distinct_card)
  finally show "length (agrupado df) = card {k \<in> NIU ` set df. \<not> isnull k}"
    by (simp only: s)
  show "\<forall>a \<in> set (agrupado df). \<forall>b \<in> set (agrupado df). NIU_g a = NIU_g b \<longrightarrow> a = b"
    using d by (auto simp: distinct_map inj_on_def)
qed


text \<open>
  A view with the customers 7, 3, 7 in this order gives the groups 3, 7.
\<close>

theorem agrupado_claves_witness:
  "map NIU_g (agrupado
     [ejemplo (CInt 7) CNaN CNaN CNaN (Some 100), ejemplo (CInt 3) CNaN CNaN CNaN (Some 50),
      ejemplo (CInt 7) CNaN CNaN CNaN (Some 25)]) = [CInt 3, CInt 7] \<and>
   map NIU
     [ejemplo (CInt 7) CNaN CNaN CNaN (Some 100), ejemplo (CInt 3) CNaN CNaN CNaN (Some 50),
      ejemplo (CInt 7) CNaN CNaN CNaN (Some 25)] = [CInt 7, CInt 3, CInt 7]"
  using agrupado_claves[THEN conjunct2, THEN conjunct1, of
     "[ejemplo (CInt 7) CNaN CNaN CNaN (Some 100), ejemplo (CInt 3) CNaN CNaN CNaN (Some 50),
      ejemplo (CInt 7) CNaN CNaN CNaN (Some 25)]"]
  by (simp add: NIU_agrupado claves_def ejemplo_def isnull_def)










section \<open>Properties of the KPIs\<close>




section \<open>Properties of the ten largest balances\<close>

text \<open>The order of the ranking: larger key first, equal keys by ascending position.\<close>

lemma sorted_stable_lex:
  fixes key :: "nat \<Rightarrow> 'k::linorder"
  assumes "sorted (map key ys)"
    and "\<And>k. sorted_wrt (\<lambda>i j. j < i) (filter (\<lambda>i. key i = k) ys)"
  shows "sorted_wrt (\<lambda>i j. key i < key j \<or> (key i = key j \<and> j < i)) ys"
  using assms
proof (induction ys)
  case Nil
  then show ?case by simp
next
  case (Cons y ys)
  have tail: "sorted_wrt (\<lambda>i j. key i < key j \<or> (key i = key j \<and> j < i)) ys"
  proof (rule Cons.IH)
    show "sorted (map key ys)" using Cons.prems(1) by simp
    show "sorted_wrt (\<lambda>i j. j < i) (filter (\<lambda>i. key i = k) ys)" for k
      using Cons.prems(2)[of k] by (simp split: if_splits)
  qed
  have head: "key y < key z \<or> (key y = key z \<and> z < y)" if z: "z \<in> set ys" for z
  proof (cases "key y = key z")
    case True
    have "sorted_wrt (\<lambda>i j. j < i) (y # filter (\<lambda>i. key i = key y) ys)"
      using Cons.prems(2)[of "key y"] by simp
    moreover have "z \<in> set (filter (\<lambda>i. key i = key y) ys)"
      using z True by simp
    ultimately have "z < y" by auto
    with True show ?thesis by simp
  next
    case False
    moreover have "key y \<le> key z" using Cons.prems(1) z by auto
    ultimately show ?thesis by simp
  qed
  from tail head show ?case by simp
qed

lemma ranking_sorted:
  fixes vals :: "'k::linorder list"
  shows "sorted_wrt (\<lambda>i j. vals ! j < vals ! i \<or> (vals ! j = vals ! i \<and> i < j))
           (rev (sort_key (\<lambda>i. vals ! i) (rev [0..<length vals])))"
proof -
  let ?ys = "sort_key (\<lambda>i. vals ! i) (rev [0..<length vals])"
  have s: "sorted (map (\<lambda>i. vals ! i) ?ys)"
    by (rule sorted_sort_key)
  have f: "sorted_wrt (\<lambda>i j. j < i) (filter (\<lambda>i. vals ! i = k) ?ys)" for k
  proof -
    have "filter (\<lambda>i. vals ! i = k) ?ys = rev (filter (\<lambda>i. vals ! i = k) [0..<length vals])"
      by (simp only: sort_key_stable rev_filter)
    moreover have "sorted_wrt (<) (filter (\<lambda>i. vals ! i = k) [0..<length vals])"
      by (rule sorted_wrt_filter) simp
    ultimately show ?thesis by (simp add: sorted_wrt_rev)
  qed
  have "sorted_wrt (\<lambda>i j. vals ! i < vals ! j \<or> (vals ! i = vals ! j \<and> j < i)) ?ys"
    using s f by (rule sorted_stable_lex)
  then show ?thesis
    by (simp add: sorted_wrt_rev)
qed

lemma ranking_perm:
  "distinct (rev (sort_key (\<lambda>i. vals ! i) (rev [0..<length vals]))) \<and>
   set (rev (sort_key (\<lambda>i. vals ! i) (rev [0..<length vals]))) = {..<length vals} \<and>
   length (rev (sort_key (\<lambda>i. vals ! i) (rev [0..<length vals]))) = length vals"
  by (simp add: atLeast_upt)

lemma nlargest_indexer_props:
  fixes vals :: "rat option list"
  defines "R \<equiv> (\<lambda>i j. vals ! j < vals ! i \<or> (vals ! j = vals ! i \<and> i < j))"
  shows "length (nlargest_indexer n vals) = min n (length vals)"
    and "distinct (nlargest_indexer n vals)"
    and "set (nlargest_indexer n vals) \<subseteq> {..<length vals}"
    and "sorted_wrt R (nlargest_indexer n vals)"
    and "i \<in> set (nlargest_indexer n vals) \<Longrightarrow> j < length vals \<Longrightarrow>
         j \<notin> set (nlargest_indexer n vals) \<Longrightarrow> R i j"
proof -
  let ?S = "rev (sort_key (\<lambda>i. vals ! i) (rev [0..<length vals]))"
  have ix: "nlargest_indexer n vals = take n ?S"
    by (simp add: nlargest_indexer_def)
  have sorted: "sorted_wrt R ?S"
    unfolding R_def by (rule ranking_sorted)
  show "length (nlargest_indexer n vals) = min n (length vals)"
    by (simp add: ix)
  show "distinct (nlargest_indexer n vals)"
    unfolding ix using ranking_perm[of vals] by (intro distinct_take) blast
  show "set (nlargest_indexer n vals) \<subseteq> {..<length vals}"
    unfolding ix using ranking_perm[of vals] set_take_subset[of n ?S] by blast
  show "sorted_wrt R (nlargest_indexer n vals)"
    unfolding ix using sorted by (rule sorted_wrt_take)
  show "R i j" if i: "i \<in> set (nlargest_indexer n vals)" and j: "j < length vals"
    and nj: "j \<notin> set (nlargest_indexer n vals)"
  proof -
    have "j \<in> set ?S" using j ranking_perm[of vals] by blast
    then have "j \<in> set (take n ?S) \<union> set (drop n ?S)"
      by (simp only: set_append[symmetric] append_take_drop_id)
    then have jd: "j \<in> set (drop n ?S)" using nj ix by simp
    have "sorted_wrt R (take n ?S @ drop n ?S)" using sorted by simp
    then show ?thesis
      using i jd unfolding ix sorted_wrt_append by blast
  qed
qed

text \<open>
  C8. For every table of at least 10 rows, \<open>top10\<close> returns exactly 10 records. Each is
  one row of the table (no grouping), taken at 10 different positions. The records are
  in descending order of balance, and two records of equal balance are in the order of
  their positions in the table. Every row left out has a smaller balance than each
  selected row, or an equal balance and a later position.
\<close>

theorem top10_descending_stable:
  assumes len: "10 \<le> length dfs"
  shows "length (top10 dfs) = 10 \<and>
    top10 dfs =
      map (\<lambda>i. (NIU (dfs ! i), NOMBRE (dfs ! i), SALDO_CARTERA (dfs ! i)))
        (nlargest_indexer 10 (map SALDO_CARTERA dfs)) \<and>
    distinct (nlargest_indexer 10 (map SALDO_CARTERA dfs)) \<and>
    set (nlargest_indexer 10 (map SALDO_CARTERA dfs)) \<subseteq> {..<length dfs} \<and>
    sorted_wrt (\<lambda>i j. SALDO_CARTERA (dfs ! j) < SALDO_CARTERA (dfs ! i) \<or>
                      (SALDO_CARTERA (dfs ! j) = SALDO_CARTERA (dfs ! i) \<and> i < j))
      (nlargest_indexer 10 (map SALDO_CARTERA dfs)) \<and>
    (\<forall>i \<in> set (nlargest_indexer 10 (map SALDO_CARTERA dfs)). \<forall>j < length dfs.
       j \<notin> set (nlargest_indexer 10 (map SALDO_CARTERA dfs)) \<longrightarrow>
       SALDO_CARTERA (dfs ! j) < SALDO_CARTERA (dfs ! i) \<or>
       (SALDO_CARTERA (dfs ! j) = SALDO_CARTERA (dfs ! i) \<and> i < j)) \<and>
    sorted (rev (map (\<lambda>t. snd (snd t)) (top10 dfs)))"
proof -
  define vals where "vals = map SALDO_CARTERA dfs"
  define ix where "ix = nlargest_indexer 10 (map SALDO_CARTERA dfs)"
  define R where "R = (\<lambda>i j. vals ! j < vals ! i \<or> (vals ! j = vals ! i \<and> i < j))"
  define R' where "R' = (\<lambda>i j. SALDO_CARTERA (dfs ! j) < SALDO_CARTERA (dfs ! i) \<or>
                      (SALDO_CARTERA (dfs ! j) = SALDO_CARTERA (dfs ! i) \<and> i < j))"
  have lv: "length vals = length dfs" by (simp add: vals_def)
  have ixv: "ix = nlargest_indexer 10 vals" by (simp add: ix_def vals_def)
  have l: "length ix = 10"
    using nlargest_indexer_props(1)[of 10 vals] len by (simp add: ixv lv)
  have d: "distinct ix"
    unfolding ixv by (rule nlargest_indexer_props(2))
  have sub: "set ix \<subseteq> {..<length dfs}"
    using nlargest_indexer_props(3)[of 10 vals] by (simp add: ixv lv)
  have RR': "R i j = R' i j" if "i < length dfs" "j < length dfs" for i j
    using that by (simp add: R_def R'_def vals_def)
  have s: "sorted_wrt R ix"
    unfolding ixv R_def by (rule nlargest_indexer_props(4))
  have s': "sorted_wrt R' ix"
  proof (rule sorted_wrt_mono_rel[OF _ s])
    fix x y assume "x \<in> set ix" "y \<in> set ix" "R x y"
    then show "R' x y" using RR'[of x y] sub by blast
  qed
  have sel: "R' i j" if "i \<in> set ix" "j < length dfs" "j \<notin> set ix" for i j
  proof -
    have "R i j"
      using nlargest_indexer_props(5)[of i 10 vals j] that by (simp add: ixv R_def lv)
    then show ?thesis using RR' that sub by blast
  qed
  have t: "top10 dfs = map (\<lambda>i. (NIU (dfs ! i), NOMBRE (dfs ! i), SALDO_CARTERA (dfs ! i))) ix"
    by (simp add: top10_def nlargest_def ix_def comp_def)
  have desc: "sorted (rev (map (\<lambda>t. snd (snd t)) (top10 dfs)))"
  proof -
    have "sorted_wrt (\<lambda>i j. SALDO_CARTERA (dfs ! j) \<le> SALDO_CARTERA (dfs ! i)) ix"
      using s' by (rule sorted_wrt_mono_rel[rotated]) (auto simp: R'_def)
    then show ?thesis
      by (simp add: t comp_def rev_map[symmetric] sorted_wrt_rev sorted_wrt_map)
  qed
  show ?thesis
    unfolding ix_def[symmetric]
  proof (intro conjI)
    show "length (top10 dfs) = 10" by (simp add: t l)
    show "top10 dfs = map (\<lambda>i. (NIU (dfs ! i), NOMBRE (dfs ! i), SALDO_CARTERA (dfs ! i))) ix"
      by (rule t)
    show "distinct ix" by (rule d)
    show "set ix \<subseteq> {..<length dfs}" by (rule sub)
    show "sorted_wrt (\<lambda>i j. SALDO_CARTERA (dfs ! j) < SALDO_CARTERA (dfs ! i) \<or>
                      (SALDO_CARTERA (dfs ! j) = SALDO_CARTERA (dfs ! i) \<and> i < j)) ix"
      using s' by (simp only: R'_def)
    show "\<forall>i \<in> set ix. \<forall>j < length dfs. j \<notin> set ix \<longrightarrow>
       SALDO_CARTERA (dfs ! j) < SALDO_CARTERA (dfs ! i) \<or>
       (SALDO_CARTERA (dfs ! j) = SALDO_CARTERA (dfs ! i) \<and> i < j)"
      using sel unfolding R'_def by blast
    show "sorted (rev (map (\<lambda>t. snd (snd t)) (top10 dfs)))" by (rule desc)
  qed
qed


text \<open>
  Twelve rows with the balances 5, 9, 1, 9, 3, 7, 2, 8, 6, 4, 9, 0 (the customer number
  is the position): the three rows of balance 9 come first, in the order of their
  positions 1, 3, 10; the rows of balance 1 and 0 are left out.
\<close>

theorem top10_descending_stable_witness:
  "map fst (top10 (map (\<lambda>(n, s). ejemplo (CInt n) CNaN CNaN CNaN (Some s))
        [(0, 5), (1, 9), (2, 1), (3, 9), (4, 3), (5, 7), (6, 2), (7, 8), (8, 6), (9, 4),
         (10, 9), (11, 0)])) =
     [CInt 1, CInt 3, CInt 10, CInt 7, CInt 5, CInt 8, CInt 0, CInt 9, CInt 4, CInt 6] \<and>
   map (\<lambda>t. snd (snd t)) (top10 (map (\<lambda>(n, s). ejemplo (CInt n) CNaN CNaN CNaN (Some s))
        [(0, 5), (1, 9), (2, 1), (3, 9), (4, 3), (5, 7), (6, 2), (7, 8), (8, 6), (9, 4),
         (10, 9), (11, 0)])) =
     [Some 9, Some 9, Some 9, Some 8, Some 7, Some 6, Some 5, Some 4, Some 3, Some 2]"
  using top10_descending_stable[THEN conjunct2, THEN conjunct1, of
      "map (\<lambda>(n, s). ejemplo (CInt n) CNaN CNaN CNaN (Some s))
        [(0, 5), (1, 9), (2, 1), (3, 9), (4, 3), (5, 7), (6, 2), (7, 8), (8, 6), (9, 4),
         (10, 9), (11, 0)]"]
  by (simp add: nlargest_indexer_def ejemplo_def upt_rec)

section \<open>Properties of the currency format\<close>

lemma digits_range: "\<forall>c \<in> set (digits n). 48 \<le> c \<and> c \<le> 57"
proof (induction n rule: digits.induct)
  case (1 n)
  show ?case
  proof (cases "n < 10")
    case True
    then show ?thesis by (subst digits.simps) simp
  next
    case False
    have "n mod 10 < 10" by simp
    then have "48 + n mod 10 \<le> 57" by linarith
    with False 1 show ?thesis by (subst digits.simps) simp
  qed
qed

lemma digits_value: "foldl (\<lambda>a c. 10 * a + (c - 48)) 0 (digits n) = n"
proof (induction n rule: digits.induct)
  case (1 n)
  show ?case
  proof (cases "n < 10")
    case True
    then show ?thesis by (subst digits.simps) simp
  next
    case False
    with 1 show ?thesis by (subst digits.simps) simp
  qed
qed

lemma agrupar_miles_props:
  "44 \<notin> set ds \<Longrightarrow>
   filter (\<lambda>c. c \<noteq> 44) (agrupar_miles ds) = ds \<and>
   length (agrupar_miles ds) = length ds + (length ds - 1) div 3 \<and>
   (\<forall>i < length (agrupar_miles ds). (rev (agrupar_miles ds) ! i = 44) = (i mod 4 = 3))"
proof (induction ds rule: agrupar_miles.induct)
  case (1 ds)
  show ?case
  proof (cases "length ds \<le> 3")
    case True
    then have eq: "agrupar_miles ds = ds" by (simp add: agrupar_miles.simps)
    have "filter (\<lambda>c. c \<noteq> 44) ds = ds"
      using "1.prems" by (auto simp: filter_id_conv)
    moreover have "(length ds - 1) div 3 = 0" using True by simp
    moreover have "(rev ds ! i = 44) = (i mod 4 = 3)" if "i < length ds" for i
    proof -
      have "rev ds ! i \<in> set ds" using that nth_mem[of i "rev ds"] by simp
      then have "rev ds ! i \<noteq> 44" using "1.prems" by auto
      moreover have "i mod 4 \<noteq> 3" using that True by simp
      ultimately show ?thesis by simp
    qed
    ultimately show ?thesis by (simp add: eq)
  next
    case False
    define a where "a = take (length ds - 3) ds"
    define b where "b = drop (length ds - 3) ds"
    define g where "g = agrupar_miles a"
    have eq: "agrupar_miles ds = g @ [44] @ b"
      using False by (subst agrupar_miles.simps) (simp add: a_def b_def g_def)
    have ab: "a @ b = ds" by (simp add: a_def b_def)
    have lb: "length b = 3" using False by (simp add: b_def)
    have la: "length a = length ds - 3" by (simp add: a_def)
    have na: "44 \<notin> set a" and nb: "44 \<notin> set b"
      using "1.prems" ab by (metis Un_iff set_append)+
    have IH: "filter (\<lambda>c. c \<noteq> 44) g = a \<and>
      length g = length a + (length a - 1) div 3 \<and>
      (\<forall>i < length g. (rev g ! i = 44) = (i mod 4 = 3))"
      using "1.IH"[OF False] na by (simp add: a_def g_def)
    have fb: "filter (\<lambda>c. c \<noteq> 44) b = b"
      using nb by (auto simp: filter_id_conv)
    have c1: "filter (\<lambda>c. c \<noteq> 44) (agrupar_miles ds) = ds"
      using IH fb ab by (simp add: eq)
    have c2: "length (agrupar_miles ds) = length ds + (length ds - 1) div 3"
      using IH la lb False by (simp add: eq)
    have c3: "(rev (agrupar_miles ds) ! i = 44) = (i mod 4 = 3)"
      if i: "i < length (agrupar_miles ds)" for i
    proof -
      have r: "rev (agrupar_miles ds) = rev b @ 44 # rev g" by (simp add: eq)
      consider "i < 3" | "i = 3" | "4 \<le> i" by linarith
      then show ?thesis
      proof cases
        case 1
        then have "rev (agrupar_miles ds) ! i = rev b ! i" by (simp add: r nth_append lb)
        moreover have "rev b ! i \<in> set b" using 1 lb nth_mem[of i "rev b"] by simp
        ultimately have "rev (agrupar_miles ds) ! i \<noteq> 44" using nb by auto
        moreover have "i mod 4 \<noteq> 3" using 1 by simp
        ultimately show ?thesis by simp
      next
        case 2
        then show ?thesis by (simp add: r nth_append lb)
      next
        case 3
        then have "rev (agrupar_miles ds) ! i = rev g ! (i - 4)"
          by (simp add: r nth_append lb nth_Cons')
        moreover have "i - 4 < length g" using i 3 by (simp add: eq lb)
        moreover have "((i - 4) mod 4 = 3) = (i mod 4 = 3)" using 3 by (simp add: le_mod_geq)
        ultimately show ?thesis using IH by simp
      qed
    qed
    from c1 c2 c3 show ?thesis by blast
  qed
qed

lemma round_half_even_nearest:
  "\<bar>x - of_int (round_half_even x)\<bar> \<le> 1 / 2 \<and>
   (x - of_int \<lfloor>x\<rfloor> = 1 / 2 \<longrightarrow> even (round_half_even x))"
proof -
  define f where "f = \<lfloor>x\<rfloor>"
  define d where "d = x - of_int f"
  have fl: "of_int f \<le> x" "x < of_int f + 1" unfolding f_def by linarith+
  have r: "round_half_even x =
      (if d < 1 / 2 then f else if 1 / 2 < d then f + 1 else if even f then f else f + 1)"
    by (simp add: round_half_even_def Let_def f_def d_def)
  have "\<bar>x - of_int (round_half_even x)\<bar> \<le> 1 / 2"
    using fl unfolding r d_def by (simp split: if_splits)
  moreover have "d = 1 / 2 \<Longrightarrow> even (round_half_even x)"
    unfolding r by simp
  ultimately show ?thesis unfolding d_def f_def by blast
qed

lemma separadores:
  assumes "46 \<notin> set g"
  shows "filter (\<lambda>c. c \<noteq> 46) (str_replace 44 46 g) = filter (\<lambda>c. c \<noteq> 44) g"
    and "i < length g \<Longrightarrow> (rev (str_replace 44 46 g) ! i = 46) = (rev g ! i = 44)"
proof -
  show "filter (\<lambda>c. c \<noteq> 46) (str_replace 44 46 g) = filter (\<lambda>c. c \<noteq> 44) g"
    using assms by (induction g) (auto simp: str_replace_def)
  assume i: "i < length g"
  have "rev g ! i \<in> set g" using i nth_mem[of i "rev g"] by simp
  then have "rev g ! i \<noteq> 46" using assms by auto
  moreover have "rev (str_replace 44 46 g) ! i = (if rev g ! i = 44 then 46 else rev g ! i)"
    using i by (simp add: str_replace_def rev_map)
  ultimately show "(rev (str_replace 44 46 g) ! i = 46) = (rev g ! i = 44)" by simp
qed







lemma largo_no_multiplo:
  fixes n :: nat
  assumes "0 < n"
  shows "(n + (n - 1) div 3) mod 4 \<noteq> 0"
proof -
  define k where "k = (n - 1) div 3"
  define r where "r = (n - 1) mod 3"
  have "n - 1 = 3 * k + r" by (simp add: k_def r_def)
  then have "n + k = 4 * k + (r + 1)" using assms by linarith
  then have "(n + k) mod 4 = (r + 1) mod 4" by (simp only: mod_mult_self4)
  moreover have "r < 3" by (simp add: r_def)
  ultimately show ?thesis by (simp add: k_def)
qed

lemma floor_rat_numeral: "\<lfloor>numeral a / numeral b :: rat\<rfloor> = numeral a div numeral b"
  by (metis floor_divide_of_int_eq of_int_numeral)

lemma floor_rat_minus_numeral:
  "\<lfloor>- (numeral a / numeral b) :: rat\<rfloor> = - numeral a div numeral b"
  by (metis divide_minus_left floor_divide_of_int_eq of_int_neg_numeral of_int_numeral)

lemmas evaluar_formato =
  formato_pesos_def format_coma_0f_def round_half_even_def Let_def str_replace_def
  agrupar_miles.simps digits.simps str_def floor_rat_numeral floor_rat_minus_numeral

text \<open>
  C6. \<open>formato_pesos\<close> formats 0 as \<open>$0\<close>, 1000 as \<open>$1.000\<close> and 1234567.8 as
  \<open>$1.234.568\<close>. For every amount: the integer it is rounded to is a nearest integer
  (at most one half away); the result is \<open>$\<close>, a minus sign when the amount is
  negative, and a body; removing the periods from the body leaves the decimal digits of
  the absolute value of the rounded amount, so there is no decimal part; counting from
  the right, exactly every fourth character of the body is a period, so the periods
  separate groups of three digits, and the body does not start with a period.
\<close>

theorem formato_pesos_spec:
  "formato_pesos 0 = str ''$0'' \<and>
   formato_pesos 1000 = str ''$1.000'' \<and>
   formato_pesos (12345678 / 10) = str ''$1.234.568'' \<and>
   \<bar>valor - of_int (round_half_even valor)\<bar> \<le> 1 / 2 \<and>
   (\<exists>cuerpo.
      formato_pesos valor = [36] @ (if valor < 0 then [45] else []) @ cuerpo \<and>
      filter (\<lambda>c. c \<noteq> 46) cuerpo = digits (nat \<bar>round_half_even valor\<bar>) \<and>
      (\<forall>i < length cuerpo. (rev cuerpo ! i = 46) = (i mod 4 = 3)) \<and>
      length cuerpo mod 4 \<noteq> 0) \<and>
   (\<forall>c \<in> set (digits (nat \<bar>round_half_even valor\<bar>)). 48 \<le> c \<and> c \<le> 57) \<and>
   foldl (\<lambda>a c. 10 * a + (c - 48)) 0 (digits (nat \<bar>round_half_even valor\<bar>)) =
     nat \<bar>round_half_even valor\<bar>"
proof -
  define ds where "ds = digits (nat \<bar>round_half_even valor\<bar>)"
  define g where "g = agrupar_miles ds"
  define cuerpo where "cuerpo = str_replace 44 46 g"
  have e0: "formato_pesos 0 = str ''$0''"
    by (simp add: evaluar_formato)
  have e1: "formato_pesos 1000 = str ''$1.000''"
    by (simp add: evaluar_formato)
  have e2: "formato_pesos (12345678 / 10) = str ''$1.234.568''"
    by (simp add: evaluar_formato)
  have rng: "\<forall>c \<in> set ds. 48 \<le> c \<and> c \<le> 57"
    unfolding ds_def by (rule digits_range)
  then have n44: "44 \<notin> set ds" and n46: "46 \<notin> set ds" by auto
  have gp: "filter (\<lambda>c. c \<noteq> 44) g = ds"
    "length g = length ds + (length ds - 1) div 3"
    "\<forall>i < length g. (rev g ! i = 44) = (i mod 4 = 3)"
    using agrupar_miles_props[OF n44] by (simp_all add: g_def)
  have "set g \<subseteq> insert 44 (set ds)"
  proof
    fix c assume "c \<in> set g"
    then have "c = 44 \<or> c \<in> set (filter (\<lambda>c. c \<noteq> 44) g)" by auto
    then show "c \<in> insert 44 (set ds)" by (simp only: gp(1)) auto
  qed
  then have g46: "46 \<notin> set g" using n46 by auto
  have shape: "formato_pesos valor = [36] @ (if valor < 0 then [45] else []) @ cuerpo"
    by (simp add: formato_pesos_def format_coma_0f_def str_replace_def cuerpo_def g_def ds_def)
  have lc: "length cuerpo = length g" by (simp add: cuerpo_def str_replace_def)
  have f: "filter (\<lambda>c. c \<noteq> 46) cuerpo = ds"
    unfolding cuerpo_def using separadores(1)[OF g46] gp(1) by simp
  have pos: "\<forall>i < length cuerpo. (rev cuerpo ! i = 46) = (i mod 4 = 3)"
    using separadores(2)[OF g46] gp(3) lc by (simp add: cuerpo_def)
  have "ds \<noteq> []"
    unfolding ds_def by (subst digits.simps) simp
  then have "0 < length ds" by simp
  then have m: "length cuerpo mod 4 \<noteq> 0"
    unfolding lc gp(2) by (rule largo_no_multiplo)
  have v: "foldl (\<lambda>a c. 10 * a + (c - 48)) 0 ds = nat \<bar>round_half_even valor\<bar>"
    unfolding ds_def by (rule digits_value)
  have ex: "\<exists>cuerpo.
      formato_pesos valor = [36] @ (if valor < 0 then [45] else []) @ cuerpo \<and>
      filter (\<lambda>c. c \<noteq> 46) cuerpo = ds \<and>
      (\<forall>i < length cuerpo. (rev cuerpo ! i = 46) = (i mod 4 = 3)) \<and>
      length cuerpo mod 4 \<noteq> 0"
    using shape f pos m by blast
  show ?thesis
    using e0 e1 e2 round_half_even_nearest[of valor] ex rng v
    unfolding ds_def by blast
qed

text \<open>
  The amount -12345.5 lies halfway between two integers and is rounded to the even one,
  -12346; 2.5 is rounded to 2; -0.4 is rounded to 0 and keeps its sign.
\<close>

theorem formato_pesos_spec_witness:
  "formato_pesos (- 24691 / 2) = str ''$-12.346'' \<and>
   round_half_even (- 24691 / 2) = - 12346 \<and>
   formato_pesos (5 / 2) = str ''$2'' \<and>
   formato_pesos (- 4 / 10) = str ''$-0''"
  using formato_pesos_spec[of "- 24691 / 2"]
  by (simp add: evaluar_formato)

end
